theory Spec2Isabelle
  imports Main
begin

section \<open>Merkle lists and Merkle list iterators (src/lib/provable-types/merkle-list.ts)\<close>

text \<open>
  The embedding follows the prover's view of the code: every circuit value carries its
  concrete field element, \<open>Provable.witness\<close> returns what its callback computes,
  \<open>Provable.if\<close> is a conditional whose two branches are both evaluated, and a failing
  \<open>assertEquals\<close> is an error value. Objects of class \<open>Unconstrained\<close> are mutable
  cells; they live in an explicit store, because a list and the iterator started from it
  hold the same cell.
\<close>

subsection \<open>Field elements and errors\<close>

text \<open>A field element is represented by its canonical residue (src/lib/core.ts).\<close>

type_synonym Field = int

definition Field_ORDER :: int where
  "Field_ORDER = 2 ^ 254 + 45560315531419706090280762371685220353"

definition Field :: "int \<Rightarrow> Field" where
  "Field x = x mod Field_ORDER"

text \<open>\<open>const emptyHash = Field(0)\<close>\<close>

definition emptyHash :: Field where
  "emptyHash = Field 0"

text \<open>
  \<open>NotInitialized\<close>: one of the assertions \<open>'MerkleList not initialized'\<close> of the
  dynamic subclassing infrastructure failed. \<open>AssertionFailed\<close>: \<open>Field.assertEquals\<close>
  was called on two different field elements.
\<close>

datatype error = NotInitialized | AssertionFailed

definition bindE :: "error + 'a \<Rightarrow> ('a \<Rightarrow> error + 'b) \<Rightarrow> error + 'b" where
  "bindE m f = (case m of Inl e \<Rightarrow> Inl e | Inr x \<Rightarrow> f x)"

definition assertEquals :: "Field \<Rightarrow> Field \<Rightarrow> error + unit" where
  "assertEquals x y = (if x = y then Inr () else Inl AssertionFailed)"

subsection \<open>Element types and nodes\<close>

text \<open>
  Modelled from the spec: \<open>ProvableHashable<T>\<close> is declared in hash.js, which is not
  among the sources. The spec's encoding capability gives an element type
  \<open>encode(value)\<close>, a sequence of field elements (in the code
  \<open>packToFields(provable.toInput(value))\<close>), and \<open>empty()\<close>, the canonical
  placeholder.
\<close>

record 't ProvableHashable =
  encode :: "'t \<Rightarrow> Field list"
  empty :: 't

text \<open>
  Modelled from the spec: the element type of the spec's concrete scenario, a single
  field value, which encodes as itself and whose placeholder is \<open>Field(0)\<close>.
\<close>

definition FieldType :: "Field ProvableHashable" where
  "FieldType = \<lparr>encode = (\<lambda>x. [x]), empty = Field 0\<rparr>"

text \<open>\<open>type WithHash<T> = { previousHash: Field; element: T }\<close>\<close>

record 't WithHash =
  previousHash :: Field
  element :: 't

text \<open>
  \<open>toConstant\<close> turns the variables of a node into constants of the same value, so on
  values it returns its argument.
\<close>

definition toConstant :: "'t ProvableHashable \<Rightarrow> 't WithHash \<Rightarrow> 't WithHash" where
  "toConstant type node =
     \<lparr>previousHash = previousHash node, element = element node\<rparr>"

subsection \<open>Unconstrained cells\<close>

text \<open>
  Modelled from the spec: class \<open>Unconstrained\<close> is declared in circuit-value.js, which is
  not among the sources. It is the container of the off-proof record: merkle-list.ts
  creates one with \<open>Unconstrained.from\<close> and \<open>Unconstrained.witness\<close>, reads it with
  \<open>get\<close> and overwrites it in place with \<open>set\<close>, \<open>setTo\<close> and \<open>updateAsProver\<close>. A
  cell is a reference into the store; \<open>arrays\<close> holds the cells of type
  \<open>Unconstrained<WithHash<T>[]>\<close>, \<open>numbers\<close> those of type \<open>Unconstrained<number>\<close>,
  and \<open>nextRef\<close> is the first reference not yet handed out.
\<close>

record 't Store =
  arrays :: "nat \<Rightarrow> 't WithHash list"
  numbers :: "nat \<Rightarrow> nat"
  nextRef :: nat

definition Unconstrained_from :: "'t WithHash list \<Rightarrow> 't Store \<Rightarrow> nat \<times> 't Store" where
  "Unconstrained_from v s =
     (nextRef s, s\<lparr>arrays := (arrays s)(nextRef s := v), nextRef := Suc (nextRef s)\<rparr>)"

definition Unconstrained_get :: "nat \<Rightarrow> 't Store \<Rightarrow> 't WithHash list" where
  "Unconstrained_get r s = arrays s r"

definition Unconstrained_set :: "nat \<Rightarrow> 't WithHash list \<Rightarrow> 't Store \<Rightarrow> 't Store" where
  "Unconstrained_set r v s = s\<lparr>arrays := (arrays s)(r := v)\<rparr>"

definition Unconstrained_updateAsProver ::
  "nat \<Rightarrow> ('t WithHash list \<Rightarrow> 't WithHash list) \<Rightarrow> 't Store \<Rightarrow> 't Store" where
  "Unconstrained_updateAsProver r compute s =
     Unconstrained_set r (compute (Unconstrained_get r s)) s"

definition Unconstrained_from_number :: "nat \<Rightarrow> 't Store \<Rightarrow> nat \<times> 't Store" where
  "Unconstrained_from_number v s =
     (nextRef s, s\<lparr>numbers := (numbers s)(nextRef s := v), nextRef := Suc (nextRef s)\<rparr>)"

definition Unconstrained_get_number :: "nat \<Rightarrow> 't Store \<Rightarrow> nat" where
  "Unconstrained_get_number r s = numbers s r"

definition Unconstrained_set_number :: "nat \<Rightarrow> nat \<Rightarrow> 't Store \<Rightarrow> 't Store" where
  "Unconstrained_set_number r v s = s\<lparr>numbers := (numbers s)(r := v)\<rparr>"

definition Unconstrained_updateAsProver_number ::
  "nat \<Rightarrow> (nat \<Rightarrow> nat) \<Rightarrow> 't Store \<Rightarrow> 't Store" where
  "Unconstrained_updateAsProver_number r compute s =
     Unconstrained_set_number r (compute (Unconstrained_get_number r s)) s"

subsection \<open>Hash helpers\<close>

text \<open>
  \<open>Poseidon.hashWithPrefix\<close> (hash.js) is not among the sources; the helpers take it as
  the parameter \<open>H\<close>.
\<close>

type_synonym Hasher = "string \<Rightarrow> Field list \<Rightarrow> Field"

definition genericHash :: "Hasher \<Rightarrow> 't ProvableHashable \<Rightarrow> string \<Rightarrow> 't \<Rightarrow> Field" where
  "genericHash H provable prefix v = H prefix (encode provable v)"

definition merkleListHash ::
  "Hasher \<Rightarrow> 't ProvableHashable \<Rightarrow> string \<Rightarrow> Field \<Rightarrow> 't \<Rightarrow> Field" where
  "merkleListHash H provable prefix = (\<lambda>hash v. H prefix (hash # encode provable v))"

text \<open>
  The loop of \<open>withHashes\<close> runs \<open>i\<close> from \<open>n - 1\<close> down to \<open>0\<close>. The first argument
  of \<open>withHashes_loop\<close> is \<open>i + 1\<close>; \<open>arrayWithHashes\<close> is the part of the array
  written so far, the slots from \<open>i + 1\<close> on.
\<close>

primrec withHashes_loop ::
  "nat \<Rightarrow> 't list \<Rightarrow> (Field \<Rightarrow> 't \<Rightarrow> Field) \<Rightarrow> 't WithHash list \<Rightarrow> Field
     \<Rightarrow> 't WithHash list \<times> Field" where
  "withHashes_loop 0 vs nextHash arrayWithHashes currentHash =
     (arrayWithHashes, currentHash)"
| "withHashes_loop (Suc i) vs nextHash arrayWithHashes currentHash =
     withHashes_loop i vs nextHash
       (\<lparr>previousHash = currentHash, element = vs ! i\<rparr> # arrayWithHashes)
       (nextHash currentHash (vs ! i))"

definition withHashes ::
  "'t list \<Rightarrow> (Field \<Rightarrow> 't \<Rightarrow> Field) \<Rightarrow> Field \<Rightarrow> 't WithHash list \<times> Field" where
  "withHashes vs nextHash emptyHash' = withHashes_loop (length vs) vs nextHash [] emptyHash'"

subsection \<open>Classes made by the factories\<close>

text \<open>
  The statics of the dynamic subclassing infrastructure, \<open>_innerProvable\<close>, \<open>_nextHash\<close>
  and \<open>_emptyHash\<close>, each \<open>undefined\<close> in the base classes \<open>MerkleList\<close> and
  \<open>MerkleListIterator\<close>, which declare them alike.
\<close>

record 't Class =
  static_innerProvable :: "'t ProvableHashable option"
  static_nextHash :: "(Field \<Rightarrow> 't \<Rightarrow> Field) option"
  static_emptyHash :: "Field option"

definition MerkleList_base :: "'t Class" where
  "MerkleList_base =
     \<lparr>static_innerProvable = None, static_nextHash = None, static_emptyHash = None\<rparr>"

text \<open>
  The default parameters of \<open>create\<close>: an argument that is \<open>undefined\<close> takes
  \<open>merkleListHash(type)\<close>, with the prefix \<open>''\<close>, and the global \<open>emptyHash\<close>.
\<close>

definition default_nextHash ::
  "Hasher \<Rightarrow> 't ProvableHashable \<Rightarrow> (Field \<Rightarrow> 't \<Rightarrow> Field) option \<Rightarrow> Field \<Rightarrow> 't \<Rightarrow> Field" where
  "default_nextHash H type nextHash =
     (case nextHash of None \<Rightarrow> merkleListHash H type [] | Some f \<Rightarrow> f)"

definition default_emptyHash :: "Field option \<Rightarrow> Field" where
  "default_emptyHash emptyHash' = (case emptyHash' of None \<Rightarrow> emptyHash | Some e \<Rightarrow> e)"

text \<open>\<open>MerkleList.create\<close> and \<open>MerkleListIterator.create\<close> set the same three statics.\<close>

definition create ::
  "Hasher \<Rightarrow> 't ProvableHashable \<Rightarrow> (Field \<Rightarrow> 't \<Rightarrow> Field) option \<Rightarrow> Field option
     \<Rightarrow> 't Class" where
  "create H type nextHash emptyHash' =
     \<lparr>static_innerProvable = Some type,
      static_nextHash = Some (default_nextHash H type nextHash),
      static_emptyHash = Some (default_emptyHash emptyHash')\<rparr>"

subsection \<open>The list\<close>

record MerkleListBase =
  hash :: Field
  data :: nat

record 't MerkleList = MerkleListBase +
  Constructor :: "'t Class"

text \<open>
  An iterator has the fields of a list, fixed, and the two fields that move. The field
  \<open>currentIndex\<close> is a cell of the store, as \<open>data\<close> is.
\<close>

record 't MerkleListIterator = "'t MerkleList" +
  currentHash :: Field
  currentIndex :: nat

text \<open>The getters \<open>nextHash\<close>, \<open>emptyHash\<close> and \<open>innerProvable\<close> of both classes.\<close>

definition nextHash ::
  "('t, 'z) MerkleList_scheme \<Rightarrow> Field \<Rightarrow> 't \<Rightarrow> error + Field" where
  "nextHash this h v =
     (case static_nextHash (Constructor this) of
        None \<Rightarrow> Inl NotInitialized
      | Some f \<Rightarrow> Inr (f h v))"

definition Class_emptyHash :: "'t Class \<Rightarrow> error + Field" where
  "Class_emptyHash C =
     (case static_emptyHash C of None \<Rightarrow> Inl NotInitialized | Some e \<Rightarrow> Inr e)"

definition Class_innerProvable :: "'t Class \<Rightarrow> error + 't ProvableHashable" where
  "Class_innerProvable C =
     (case static_innerProvable C of None \<Rightarrow> Inl NotInitialized | Some type \<Rightarrow> Inr type)"

definition innerProvable ::
  "('t, 'z) MerkleList_scheme \<Rightarrow> error + 't ProvableHashable" where
  "innerProvable this = Class_innerProvable (Constructor this)"

definition isEmpty :: "'t MerkleList \<Rightarrow> error + bool" where
  "isEmpty this =
     bindE (Class_emptyHash (Constructor this)) (\<lambda>e. Inr (hash this = e))"

definition push :: "'t MerkleList \<Rightarrow> 't \<Rightarrow> 't Store \<Rightarrow> error + 't MerkleList \<times> 't Store" where
  "push this elem s =
     (let previousHash = hash this in
      bindE (nextHash this previousHash elem) (\<lambda>h.
      bindE (innerProvable this) (\<lambda>type.
        Inr (this\<lparr>hash := h\<rparr>,
             Unconstrained_updateAsProver (data this)
               (\<lambda>data. toConstant type \<lparr>previousHash = previousHash, element = elem\<rparr> # data)
               s))))"

definition pushIf ::
  "'t MerkleList \<Rightarrow> bool \<Rightarrow> 't \<Rightarrow> 't Store \<Rightarrow> error + 't MerkleList \<times> 't Store" where
  "pushIf this condition elem s =
     (let previousHash = hash this in
      bindE (nextHash this previousHash elem) (\<lambda>h.
      bindE (if condition
             then bindE (innerProvable this) (\<lambda>type. Inr (\<lambda>data.
                    toConstant type \<lparr>previousHash = previousHash, element = elem\<rparr> # data))
             else Inr (\<lambda>data. data)) (\<lambda>compute.
        Inr (this\<lparr>hash := (if condition then h else previousHash)\<rparr>,
             Unconstrained_updateAsProver (data this) compute s))))"

definition popWitness :: "'t MerkleList \<Rightarrow> 't Store \<Rightarrow> error + 't WithHash \<times> 't Store" where
  "popWitness this s =
     bindE (innerProvable this) (\<lambda>type.
       case Unconstrained_get (data this) s of
         [] \<Rightarrow>
           bindE (Class_emptyHash (Constructor this)) (\<lambda>e.
             Inr (\<lparr>previousHash = e, element = empty type\<rparr>,
                  Unconstrained_set (data this) [] s))
       | v # rest \<Rightarrow> Inr (v, Unconstrained_set (data this) rest s))"

definition popExn :: "'t MerkleList \<Rightarrow> 't Store \<Rightarrow> error + 't \<times> 't MerkleList \<times> 't Store" where
  "popExn this s =
     bindE (popWitness this s) (\<lambda>(node, s').
     bindE (nextHash this (previousHash node) (element node)) (\<lambda>currentHash.
     bindE (assertEquals (hash this) currentHash) (\<lambda>_.
       Inr (element node, this\<lparr>hash := previousHash node\<rparr>, s'))))"

definition pop :: "'t MerkleList \<Rightarrow> 't Store \<Rightarrow> error + 't \<times> 't MerkleList \<times> 't Store" where
  "pop this s =
     bindE (popWitness this s) (\<lambda>(node, s').
     bindE (isEmpty this) (\<lambda>isEmpty.
     bindE (Class_emptyHash (Constructor this)) (\<lambda>emptyHash.
     bindE (nextHash this (previousHash node) (element node)) (\<lambda>currentHash.
     bindE (assertEquals (hash this) (if isEmpty then emptyHash else currentHash)) (\<lambda>_.
     bindE (innerProvable this) (\<lambda>provable.
       Inr (if isEmpty then empty provable else element node,
            this\<lparr>hash := (if isEmpty then emptyHash else previousHash node)\<rparr>,
            s')))))))"

definition popIf ::
  "'t MerkleList \<Rightarrow> bool \<Rightarrow> 't Store \<Rightarrow> error + 't \<times> 't MerkleList \<times> 't Store" where
  "popIf this condition s =
     (let originalHash = hash this in
      bindE (pop this s) (\<lambda>(elem, this', s').
      bindE (if condition then Inr (\<lambda>data. data)
             else bindE (innerProvable this') (\<lambda>type. Inr (\<lambda>data.
                    toConstant type \<lparr>previousHash = hash this', element = elem\<rparr> # data)))
        (\<lambda>compute.
        Inr (elem,
             this'\<lparr>hash := (if condition then hash this' else originalHash)\<rparr>,
             Unconstrained_updateAsProver (data this') compute s'))))"

text \<open>\<open>clone\<close> copies the array into a new cell.\<close>

definition clone :: "'t MerkleList \<Rightarrow> 't Store \<Rightarrow> 't MerkleList \<times> 't Store" where
  "clone this s =
     (let (data', s') = Unconstrained_from (Unconstrained_get (data this) s) s
      in (\<lparr>hash = hash this, data = data', Constructor = Constructor this\<rparr>, s'))"

text \<open>
  The static methods \<open>empty\<close> and \<open>from\<close> exist on the classes that \<open>MerkleList.create\<close>
  returns; they close over the arguments of \<open>create\<close>.
\<close>

definition MerkleList_empty ::
  "Hasher \<Rightarrow> 't ProvableHashable \<Rightarrow> (Field \<Rightarrow> 't \<Rightarrow> Field) option \<Rightarrow> Field option
     \<Rightarrow> 't Store \<Rightarrow> 't MerkleList \<times> 't Store" where
  "MerkleList_empty H type nextHash' emptyHash' s =
     (let (data', s') = Unconstrained_from [] s
      in (\<lparr>hash = default_emptyHash emptyHash', data = data',
           Constructor = create H type nextHash' emptyHash'\<rparr>, s'))"

definition MerkleList_from ::
  "Hasher \<Rightarrow> 't ProvableHashable \<Rightarrow> (Field \<Rightarrow> 't \<Rightarrow> Field) option \<Rightarrow> Field option
     \<Rightarrow> 't list \<Rightarrow> 't Store \<Rightarrow> 't MerkleList \<times> 't Store" where
  "MerkleList_from H type nextHash' emptyHash' array s =
     (let (nodes, h) =
            withHashes array (default_nextHash H type nextHash') (default_emptyHash emptyHash');
          (data', s') = Unconstrained_from (map (toConstant type) nodes) s
      in (\<lparr>hash = h, data = data', Constructor = create H type nextHash' emptyHash'\<rparr>, s'))"

subsection \<open>The iterator\<close>

definition assertAtStart :: "'t MerkleListIterator \<Rightarrow> error + unit" where
  "assertAtStart this = assertEquals (currentHash this) (hash this)"

definition isAtEnd :: "'t MerkleListIterator \<Rightarrow> error + bool" where
  "isAtEnd this =
     bindE (Class_emptyHash (Constructor this)) (\<lambda>e. Inr (currentHash this = e))"

definition jumpToEnd ::
  "'t MerkleListIterator \<Rightarrow> 't Store \<Rightarrow> error + 't MerkleListIterator \<times> 't Store" where
  "jumpToEnd this s =
     (let (w, s') = Unconstrained_from_number (length (Unconstrained_get (data this) s)) s;
          s'' = Unconstrained_set_number (currentIndex this) (Unconstrained_get_number w s') s'
      in bindE (Class_emptyHash (Constructor this)) (\<lambda>e.
           Inr (this\<lparr>currentHash := e\<rparr>, s'')))"

definition jumpToEndIf ::
  "'t MerkleListIterator \<Rightarrow> bool \<Rightarrow> 't Store
     \<Rightarrow> error + 't MerkleListIterator \<times> 't Store" where
  "jumpToEndIf this condition s =
     (let s' = (if condition
                then Unconstrained_set_number (currentIndex this)
                       (length (Unconstrained_get (data this) s)) s
                else s)
      in bindE (Class_emptyHash (Constructor this)) (\<lambda>e.
           Inr (this\<lparr>currentHash := (if condition then e else currentHash this)\<rparr>, s')))"

definition MerkleListIterator_next ::
  "'t MerkleListIterator \<Rightarrow> 't Store \<Rightarrow> error + 't \<times> 't MerkleListIterator \<times> 't Store" where
  "MerkleListIterator_next this s =
     bindE (innerProvable this) (\<lambda>type.
     bindE (let nodes = Unconstrained_get (data this) s;
                i = Unconstrained_get_number (currentIndex this) s
            in if i < length nodes then Inr (nodes ! i)
               else bindE (Class_emptyHash (Constructor this)) (\<lambda>e.
                      Inr \<lparr>previousHash = e, element = empty type\<rparr>)) (\<lambda>node.
     bindE (isAtEnd this) (\<lambda>isDummy.
     bindE (Class_emptyHash (Constructor this)) (\<lambda>emptyHash.
     bindE (nextHash this (previousHash node) (element node)) (\<lambda>correctHash.
     bindE (assertEquals (currentHash this) (if isDummy then emptyHash else correctHash)) (\<lambda>_.
       Inr (if isDummy then empty type else element node,
            this\<lparr>currentHash := (if isDummy then emptyHash else previousHash node)\<rparr>,
            Unconstrained_updateAsProver_number (currentIndex this)
              (\<lambda>i. min (i + 1) (length (Unconstrained_get (data this) s))) s)))))))"

definition MerkleListIterator_clone ::
  "'t MerkleListIterator \<Rightarrow> 't Store \<Rightarrow> 't MerkleListIterator \<times> 't Store" where
  "MerkleListIterator_clone this s =
     (let (data', s') = Unconstrained_from (Unconstrained_get (data this) s) s;
          (currentIndex', s'') =
             Unconstrained_from_number (Unconstrained_get_number (currentIndex this) s') s'
      in (\<lparr>hash = hash this, data = data', Constructor = Constructor this,
           currentHash = currentHash this, currentIndex = currentIndex'\<rparr>, s''))"

text \<open>
  The static methods of a class \<open>C\<close> that \<open>MerkleListIterator.create\<close> returned.
  \<open>startIterating\<close> stores the cell \<open>data\<close> it is given, not a copy of it.
\<close>

definition MerkleListIterator_startIterating ::
  "'t Class \<Rightarrow> 'z MerkleListBase_scheme \<Rightarrow> 't Store \<Rightarrow> 't MerkleListIterator \<times> 't Store" where
  "MerkleListIterator_startIterating C base s =
     (let (currentIndex', s') = Unconstrained_from_number 0 s
      in (\<lparr>hash = hash base, data = data base, Constructor = C,
           currentHash = hash base, currentIndex = currentIndex'\<rparr>, s'))"

definition MerkleListIterator_from ::
  "Hasher \<Rightarrow> 't ProvableHashable \<Rightarrow> (Field \<Rightarrow> 't \<Rightarrow> Field) option \<Rightarrow> Field option
     \<Rightarrow> 't list \<Rightarrow> 't Store \<Rightarrow> 't MerkleListIterator \<times> 't Store" where
  "MerkleListIterator_from H type nextHash' emptyHash' array s =
     (let (nodes, h) =
            withHashes array (default_nextHash H type nextHash') (default_emptyHash emptyHash');
          (data', s') = Unconstrained_from (map (toConstant type) nodes) s
      in MerkleListIterator_startIterating (create H type nextHash' emptyHash')
           \<lparr>hash = h, data = data'\<rparr> s')"

definition MerkleListIterator_empty ::
  "Hasher \<Rightarrow> 't ProvableHashable \<Rightarrow> (Field \<Rightarrow> 't \<Rightarrow> Field) option \<Rightarrow> Field option
     \<Rightarrow> 't Store \<Rightarrow> 't MerkleListIterator \<times> 't Store" where
  "MerkleListIterator_empty H type nextHash' emptyHash' s =
     MerkleListIterator_from H type nextHash' emptyHash' [] s"

text \<open>
  \<open>createFromList\<close> calls \<open>create\<close> with two arguments, the element type and the
  static \<open>_nextHash\<close> of the list class; the third parameter takes its default.
\<close>

definition createFromList :: "Hasher \<Rightarrow> 't Class \<Rightarrow> error + 't Class" where
  "createFromList H merkleList =
     bindE (Class_innerProvable merkleList) (\<lambda>type.
       Inr (create H type (static_nextHash merkleList) None))"

text \<open>\<open>MerkleList.startIterating\<close>\<close>

definition startIterating ::
  "Hasher \<Rightarrow> 't MerkleList \<Rightarrow> 't Store \<Rightarrow> error + 't MerkleListIterator \<times> 't Store" where
  "startIterating H this s =
     bindE (createFromList H (Constructor this)) (\<lambda>merkleArray.
       Inr (MerkleListIterator_startIterating merkleArray this s))"

subsection \<open>The chain invariant\<close>

text \<open>
  \<open>foldHash\<close> chains a sequence of elements from right to left, starting from the
  empty hash. Invariant 3 of the data model: the commitment of a list is the fold of
  the elements of \<open>data\<close>, and the \<open>previousHash\<close> of each node is the fold of the
  elements after it.
\<close>

fun foldHash :: "(Field \<Rightarrow> 't \<Rightarrow> Field) \<Rightarrow> Field \<Rightarrow> 't list \<Rightarrow> Field" where
  "foldHash nh eh [] = eh"
| "foldHash nh eh (v # vs) = nh (foldHash nh eh vs) v"

text \<open>The nodes whose elements are a given sequence and whose previous hashes chain.\<close>

fun nodesOf :: "(Field \<Rightarrow> 't \<Rightarrow> Field) \<Rightarrow> Field \<Rightarrow> 't list \<Rightarrow> 't WithHash list" where
  "nodesOf nh eh [] = []"
| "nodesOf nh eh (v # vs) =
     \<lparr>previousHash = foldHash nh eh vs, element = v\<rparr> # nodesOf nh eh vs"

fun previousHashes :: "(Field \<Rightarrow> 't \<Rightarrow> Field) \<Rightarrow> Field \<Rightarrow> 't WithHash list \<Rightarrow> bool" where
  "previousHashes nh eh [] = True"
| "previousHashes nh eh (n # ns) =
     (previousHash n = foldHash nh eh (map element ns) \<and> previousHashes nh eh ns)"

definition chainInvariant :: "'t MerkleList \<Rightarrow> 't Store \<Rightarrow> bool" where
  "chainInvariant this s =
     (case (static_nextHash (Constructor this), static_emptyHash (Constructor this)) of
        (Some nh, Some eh) \<Rightarrow>
          hash this = foldHash nh eh (map element (Unconstrained_get (data this) s)) \<and>
          previousHashes nh eh (Unconstrained_get (data this) s)
      | _ \<Rightarrow> False)"

text \<open>No non-empty suffix of the sequence chains to the empty hash.\<close>

fun noEmptySuffix :: "(Field \<Rightarrow> 't \<Rightarrow> Field) \<Rightarrow> Field \<Rightarrow> 't list \<Rightarrow> bool" where
  "noEmptySuffix nh eh [] = True"
| "noEmptySuffix nh eh (v # vs) = (foldHash nh eh (v # vs) \<noteq> eh \<and> noEmptySuffix nh eh vs)"

subsection \<open>Callers\<close>

text \<open>What a call returned, without the state it left.\<close>

definition returned :: "error + 'a \<times> 'b \<Rightarrow> error + 'a" where
  "returned r = map_sum id fst r"

text \<open>\<open>n\<close> calls of \<open>pop\<close>, collecting the values returned, first call first.\<close>

fun popMany ::
  "nat \<Rightarrow> 't MerkleList \<Rightarrow> 't Store \<Rightarrow> error + 't list \<times> 't MerkleList \<times> 't Store" where
  "popMany 0 this s = Inr ([], this, s)"
| "popMany (Suc n) this s =
     bindE (pop this s) (\<lambda>(v, this', s').
     bindE (popMany n this' s') (\<lambda>(vs, this'', s''). Inr (v # vs, this'', s'')))"

text \<open>\<open>n\<close> calls of \<open>next\<close>, collecting the values returned, first call first.\<close>

fun nextMany ::
  "nat \<Rightarrow> 't MerkleListIterator \<Rightarrow> 't Store
     \<Rightarrow> error + 't list \<times> 't MerkleListIterator \<times> 't Store" where
  "nextMany 0 this s = Inr ([], this, s)"
| "nextMany (Suc n) this s =
     bindE (MerkleListIterator_next this s) (\<lambda>(v, this', s').
     bindE (nextMany n this' s') (\<lambda>(vs, this'', s''). Inr (v # vs, this'', s'')))"

text \<open>A sequence of calls of the mutating methods of a list, results dropped.\<close>

datatype 't ListOp = Push 't | PushIf bool 't | Pop | PopExn | PopIf bool

fun applyOp :: "'t ListOp \<Rightarrow> 't MerkleList \<Rightarrow> 't Store \<Rightarrow> error + 't MerkleList \<times> 't Store" where
  "applyOp (Push v) this s = push this v s"
| "applyOp (PushIf c v) this s = pushIf this c v s"
| "applyOp Pop this s = bindE (pop this s) (\<lambda>(v, this', s'). Inr (this', s'))"
| "applyOp PopExn this s = bindE (popExn this s) (\<lambda>(v, this', s'). Inr (this', s'))"
| "applyOp (PopIf c) this s = bindE (popIf this c s) (\<lambda>(v, this', s'). Inr (this', s'))"

fun applyOps ::
  "'t ListOp list \<Rightarrow> 't MerkleList \<Rightarrow> 't Store \<Rightarrow> error + 't MerkleList \<times> 't Store" where
  "applyOps [] this s = Inr (this, s)"
| "applyOps (x # xs) this s = bindE (applyOp x this s) (\<lambda>(this', s'). applyOps xs this' s')"

subsection \<open>Sample configurations\<close>

text \<open>
  A store with nothing allocated, a stand-in for the Poseidon sponge, and a custom
  \<open>nextHash\<close> that a caller may pass to \<open>create\<close>: a decimal checksum, which
  reaches the empty hash \<open>0\<close> on some inputs.
\<close>

definition store0 :: "Field Store" where
  "store0 = \<lparr>arrays = (\<lambda>_. []), numbers = (\<lambda>_. 0), nextRef = 0\<rparr>"

definition sumHasher :: Hasher where
  "sumHasher prefix xs = 1 + sum_list xs"

definition checksum :: "Field \<Rightarrow> Field \<Rightarrow> Field" where
  "checksum h x = (h + x) mod 10"

section \<open>Properties\<close>

subsection \<open>Errors, records and cells\<close>

lemma bindE_Inr [simp]: "bindE (Inr x) f = f x"
  by (simp add: bindE_def)

lemma bindE_Inl [simp]: "bindE (Inl e) f = Inl e"
  by (simp add: bindE_def)

lemma bindE_eq_Inr: "bindE m f = Inr y \<longleftrightarrow> (\<exists>x. m = Inr x \<and> f x = Inr y)"
  by (cases m) auto

lemma returned_Inr [simp]: "returned (Inr (v, r)) = Inr v"
  by (simp add: returned_def)

lemma returned_Inl [simp]: "returned (Inl e) = Inl e"
  by (simp add: returned_def)

lemma emptyHash_zero [simp]: "emptyHash = 0"
  by (simp add: emptyHash_def Field_def)

lemma toConstant_same [simp]: "toConstant type node = node"
  by (simp add: toConstant_def)

lemma WithHash_eta [simp]:
  "\<lparr>previousHash = previousHash n, element = element n\<rparr> = (n :: 't WithHash)"
  by simp

lemma hash_update_same: "hash (this :: 't MerkleList) = h \<Longrightarrow> this\<lparr>hash := h\<rparr> = this"
  by auto

lemma currentHash_update_same:
  "currentHash (this :: 't MerkleListIterator) = h \<Longrightarrow> this\<lparr>currentHash := h\<rparr> = this"
  by auto

lemma set_get_same [simp]: "Unconstrained_set r (Unconstrained_get r s) s = s"
  by (simp add: Unconstrained_set_def Unconstrained_get_def)

lemma set_set [simp]: "Unconstrained_set r v (Unconstrained_set r w s) = Unconstrained_set r v s"
  by (simp add: Unconstrained_set_def)

lemma get_set [simp]:
  "Unconstrained_get r (Unconstrained_set r' v s) = (if r = r' then v else Unconstrained_get r s)"
  by (simp add: Unconstrained_set_def Unconstrained_get_def)

lemma set_number_set_number [simp]:
  "Unconstrained_set_number r v (Unconstrained_set_number r w s) = Unconstrained_set_number r v s"
  by (simp add: Unconstrained_set_number_def)

lemma get_set_number [simp]:
  "Unconstrained_get r (Unconstrained_set_number r' v s) = Unconstrained_get r s"
  "Unconstrained_get_number r (Unconstrained_set_number r' v s) =
     (if r = r' then v else Unconstrained_get_number r s)"
  by (simp_all add: Unconstrained_set_number_def Unconstrained_get_def Unconstrained_get_number_def)

lemma set_number_get_same [simp]:
  "Unconstrained_set_number r (Unconstrained_get_number r s) s = s"
  by (simp add: Unconstrained_set_number_def Unconstrained_get_number_def)

subsection \<open>The getters of a class made by the factory\<close>

lemma static_create [simp]:
  "static_innerProvable (create H type nh' eh') = Some type"
  "static_nextHash (create H type nh' eh') = Some (default_nextHash H type nh')"
  "static_emptyHash (create H type nh' eh') = Some (default_emptyHash eh')"
  by (simp_all add: create_def)

lemma nextHash_create [simp]:
  "Constructor this = create H type nh' eh' \<Longrightarrow>
   nextHash this h v = Inr (default_nextHash H type nh' h v)"
  by (simp add: nextHash_def create_def)

lemma Class_emptyHash_create [simp]:
  "Class_emptyHash (create H type nh' eh') = Inr (default_emptyHash eh')"
  by (simp add: Class_emptyHash_def create_def)

lemma innerProvable_create [simp]:
  "Constructor this = create H type nh' eh' \<Longrightarrow> innerProvable this = Inr type"
  by (simp add: innerProvable_def Class_innerProvable_def create_def)

lemma isEmpty_create [simp]:
  "Constructor this = create H type nh' eh' \<Longrightarrow>
   isEmpty this = Inr (hash this = default_emptyHash eh')"
  by (simp add: isEmpty_def)

lemma isAtEnd_create [simp]:
  "Constructor this = create H type nh' eh' \<Longrightarrow>
   isAtEnd this = Inr (currentHash this = default_emptyHash eh')"
  by (simp add: isAtEnd_def)

text \<open>On a list of the base class, whose statics are undefined, the methods fail.\<close>

lemma base_class_not_initialized:
  assumes "Constructor this = MerkleList_base"
  shows "isEmpty this = Inl NotInitialized" and "push this v s = Inl NotInitialized"
    and "pop this s = Inl NotInitialized" and "popExn this s = Inl NotInitialized"
  using assms
  by (simp_all add: MerkleList_base_def isEmpty_def push_def pop_def popExn_def popWitness_def
        Class_emptyHash_def nextHash_def innerProvable_def Class_innerProvable_def)

subsection \<open>The methods of a list of such a class\<close>

lemma push_create:
  "Constructor this = create H type nh' eh' \<Longrightarrow>
   push this v s =
     Inr (this\<lparr>hash := default_nextHash H type nh' (hash this) v\<rparr>,
          Unconstrained_set (data this)
            (\<lparr>previousHash = hash this, element = v\<rparr> # Unconstrained_get (data this) s) s)"
  by (simp add: push_def Unconstrained_updateAsProver_def Let_def)

lemma pushIf_create:
  "Constructor this = create H type nh' eh' \<Longrightarrow>
   pushIf this c v s = (if c then push this v s else Inr (this, s))"
  by (simp add: pushIf_def push_create Unconstrained_updateAsProver_def Let_def)

lemma popWitness_create:
  "Constructor this = create H type nh' eh' \<Longrightarrow>
   popWitness this s =
     Inr (case Unconstrained_get (data this) s of
            [] \<Rightarrow> \<lparr>previousHash = default_emptyHash eh', element = empty type\<rparr>
          | n # ns \<Rightarrow> n,
          Unconstrained_set (data this) (tl (Unconstrained_get (data this) s)) s)"
  by (simp add: popWitness_def split: list.splits)

lemma pop_create:
  "Constructor this = create H type nh' eh' \<Longrightarrow>
   pop this s =
     (let node = (case Unconstrained_get (data this) s of
                    [] \<Rightarrow> \<lparr>previousHash = default_emptyHash eh', element = empty type\<rparr>
                  | n # ns \<Rightarrow> n);
          isEmpty = (hash this = default_emptyHash eh')
      in if hash this =
            (if isEmpty then default_emptyHash eh'
             else default_nextHash H type nh' (previousHash node) (element node))
         then Inr (if isEmpty then empty type else element node,
                   this\<lparr>hash := (if isEmpty then default_emptyHash eh' else previousHash node)\<rparr>,
                   Unconstrained_set (data this) (tl (Unconstrained_get (data this) s)) s)
         else Inl AssertionFailed)"
  by (simp add: pop_def popWitness_create assertEquals_def Let_def)

lemma pop_at_empty:
  "Constructor this = create H type nh' eh' \<Longrightarrow> hash this = default_emptyHash eh' \<Longrightarrow>
   pop this s =
     Inr (empty type, this,
          Unconstrained_set (data this) (tl (Unconstrained_get (data this) s)) s)"
  by (simp add: pop_def popWitness_create assertEquals_def)

lemma pop_head:
  "Constructor this = create H type nh' eh' \<Longrightarrow> hash this \<noteq> default_emptyHash eh' \<Longrightarrow>
   Unconstrained_get (data this) s = n # ns \<Longrightarrow>
   hash this = default_nextHash H type nh' (previousHash n) (element n) \<Longrightarrow>
   pop this s = Inr (element n, this\<lparr>hash := previousHash n\<rparr>, Unconstrained_set (data this) ns s)"
  by (simp add: pop_def popWitness_create assertEquals_def)

lemma popExn_create:
  "Constructor this = create H type nh' eh' \<Longrightarrow>
   popExn this s =
     (let node = (case Unconstrained_get (data this) s of
                    [] \<Rightarrow> \<lparr>previousHash = default_emptyHash eh', element = empty type\<rparr>
                  | n # ns \<Rightarrow> n)
      in if hash this = default_nextHash H type nh' (previousHash node) (element node)
         then Inr (element node, this\<lparr>hash := previousHash node\<rparr>,
                   Unconstrained_set (data this) (tl (Unconstrained_get (data this) s)) s)
         else Inl AssertionFailed)"
  by (simp add: popExn_def popWitness_create assertEquals_def Let_def)

lemma popIf_True: "popIf this True s = pop this s"
  by (cases "pop this s")
     (auto simp add: popIf_def Unconstrained_updateAsProver_def Let_def)

lemma popIf_False_restores:
  assumes "Constructor this = create H type nh' eh'"
    and "hash this \<noteq> default_emptyHash eh'"
    and "Unconstrained_get (data this) s = n # ns"
    and "hash this = default_nextHash H type nh' (previousHash n) (element n)"
  shows "popIf this False s = Inr (element n, this, s)"
proof -
  have "pop this s = Inr (element n, this\<lparr>hash := previousHash n\<rparr>, Unconstrained_set (data this) ns s)"
    using assms by (intro pop_head) auto
  moreover have "Unconstrained_set (data this) (n # ns) s = s"
    using assms(3) by (metis set_get_same)
  ultimately show ?thesis
    using assms(1) by (simp add: popIf_def Unconstrained_updateAsProver_def Let_def)
qed

lemma popIf_False_at_empty:
  assumes "Constructor this = create H type nh' eh'"
    and "hash this = default_emptyHash eh'"
  shows "popIf this False s =
           Inr (empty type, this,
                Unconstrained_set (data this)
                  (\<lparr>previousHash = default_emptyHash eh', element = empty type\<rparr> #
                     tl (Unconstrained_get (data this) s)) s)"
  using assms
  by (simp add: popIf_def pop_at_empty Unconstrained_updateAsProver_def Let_def hash_update_same)

subsection \<open>What \<open>withHashes\<close> builds\<close>

lemma withHashes_loop_nodesOf:
  "i \<le> length vs \<Longrightarrow>
   withHashes_loop i vs nh (nodesOf nh eh (drop i vs)) (foldHash nh eh (drop i vs)) =
     (nodesOf nh eh vs, foldHash nh eh vs)"
proof (induction i)
  case 0
  then show ?case by simp
next
  case (Suc i)
  then have "drop i vs = vs ! i # drop (Suc i) vs"
    by (simp add: Cons_nth_drop_Suc)
  with Suc show ?case by simp
qed

lemma withHashes_nodesOf:
  "withHashes vs nh eh = (nodesOf nh eh vs, foldHash nh eh vs)"
  using withHashes_loop_nodesOf [of "length vs" vs nh eh] by (simp add: withHashes_def)

lemma element_nodesOf [simp]: "map element (nodesOf nh eh vs) = vs"
  by (induction vs) auto

lemma previousHashes_nodesOf [simp]: "previousHashes nh eh (nodesOf nh eh vs)"
  by (induction vs) auto

lemma chainInvariant_create:
  "Constructor this = create H type nh' eh' \<Longrightarrow>
   chainInvariant this s \<longleftrightarrow>
     hash this = foldHash (default_nextHash H type nh') (default_emptyHash eh')
                   (map element (Unconstrained_get (data this) s)) \<and>
     previousHashes (default_nextHash H type nh') (default_emptyHash eh')
       (Unconstrained_get (data this) s)"
  by (simp add: chainInvariant_def create_def)

lemma MerkleList_from_eq:
  "MerkleList_from H type nh' eh' vs s =
     (\<lparr>hash = foldHash (default_nextHash H type nh') (default_emptyHash eh') vs,
       data = nextRef s, Constructor = create H type nh' eh'\<rparr>,
      s\<lparr>arrays := (arrays s)(nextRef s :=
           nodesOf (default_nextHash H type nh') (default_emptyHash eh') vs),
        nextRef := Suc (nextRef s)\<rparr>)"
  by (simp add: MerkleList_from_def withHashes_nodesOf Unconstrained_from_def
      map_idI [where f = "toConstant type"])

lemma MerkleList_empty_eq:
  "MerkleList_empty H type nh' eh' s =
     (\<lparr>hash = default_emptyHash eh', data = nextRef s, Constructor = create H type nh' eh'\<rparr>,
      s\<lparr>arrays := (arrays s)(nextRef s := []), nextRef := Suc (nextRef s)\<rparr>)"
  by (simp add: MerkleList_empty_def Unconstrained_from_def)

lemma MerkleListIterator_from_eq:
  "MerkleListIterator_from H type nh' eh' vs s =
     (\<lparr>hash = foldHash (default_nextHash H type nh') (default_emptyHash eh') vs,
       data = nextRef s, Constructor = create H type nh' eh',
       currentHash = foldHash (default_nextHash H type nh') (default_emptyHash eh') vs,
       currentIndex = Suc (nextRef s)\<rparr>,
      s\<lparr>arrays := (arrays s)(nextRef s :=
           nodesOf (default_nextHash H type nh') (default_emptyHash eh') vs),
        numbers := (numbers s)(Suc (nextRef s) := 0),
        nextRef := Suc (Suc (nextRef s))\<rparr>)"
  by (simp add: MerkleListIterator_from_def withHashes_nodesOf Unconstrained_from_def
      MerkleListIterator_startIterating_def Unconstrained_from_number_def
      map_idI [where f = "toConstant type"])

subsection \<open>The methods of an iterator\<close>

lemma createFromList_create:
  "createFromList H (create H type nh' eh') =
     Inr (create H type (Some (default_nextHash H type nh')) None)"
  by (simp add: createFromList_def Class_innerProvable_def create_def)

lemma startIterating_create:
  "Constructor this = create H type nh' eh' \<Longrightarrow>
   startIterating H this s =
     Inr (\<lparr>hash = hash this, data = data this,
           Constructor = create H type (Some (default_nextHash H type nh')) None,
           currentHash = hash this, currentIndex = nextRef s\<rparr>,
          s\<lparr>numbers := (numbers s)(nextRef s := 0), nextRef := Suc (nextRef s)\<rparr>)"
  by (simp add: startIterating_def createFromList_create MerkleListIterator_startIterating_def
      Unconstrained_from_number_def)

lemma next_create:
  "Constructor this = create H type nh' eh' \<Longrightarrow>
   MerkleListIterator_next this s =
     (let node = (case drop (Unconstrained_get_number (currentIndex this) s)
                         (Unconstrained_get (data this) s) of
                    [] \<Rightarrow> \<lparr>previousHash = default_emptyHash eh', element = empty type\<rparr>
                  | n # ns \<Rightarrow> n);
          isDummy = (currentHash this = default_emptyHash eh')
      in if currentHash this =
            (if isDummy then default_emptyHash eh'
             else default_nextHash H type nh' (previousHash node) (element node))
         then Inr (if isDummy then empty type else element node,
                   this\<lparr>currentHash := (if isDummy then default_emptyHash eh' else previousHash node)\<rparr>,
                   Unconstrained_set_number (currentIndex this)
                     (min (Unconstrained_get_number (currentIndex this) s + 1)
                        (length (Unconstrained_get (data this) s))) s)
         else Inl AssertionFailed)"
proof -
  let ?xs = "Unconstrained_get (data this) s" and ?i = "Unconstrained_get_number (currentIndex this) s"
  have "(case drop ?i ?xs of [] \<Rightarrow> d | n # ns \<Rightarrow> n) = (if ?i < length ?xs then ?xs ! ?i else d)" for d
    by (cases "?i < length ?xs") (simp_all add: Cons_nth_drop_Suc [symmetric])
  then show "Constructor this = create H type nh' eh' \<Longrightarrow> ?thesis"
    by (simp add: MerkleListIterator_next_def assertEquals_def Let_def
          Unconstrained_updateAsProver_number_def)
qed

lemma next_at_end:
  assumes "Constructor this = create H type nh' eh'"
    and "currentHash this = default_emptyHash eh'"
  shows "MerkleListIterator_next this s =
           Inr (empty type, this,
                Unconstrained_set_number (currentIndex this)
                  (min (Unconstrained_get_number (currentIndex this) s + 1)
                     (length (Unconstrained_get (data this) s))) s)"
  using assms
  by (simp add: MerkleListIterator_next_def assertEquals_def Let_def
        Unconstrained_updateAsProver_number_def currentHash_update_same)

subsection \<open>What the methods leave alone\<close>

lemma push_frame:
  assumes "push this v s = Inr (this', s')"
  shows "data this' = data this \<and> Constructor this' = Constructor this \<and>
         numbers s' = numbers s \<and> nextRef s' = nextRef s \<and>
         (\<forall>r. r \<noteq> data this \<longrightarrow> arrays s' r = arrays s r)"
  using assms
  by (auto simp add: push_def Let_def bindE_eq_Inr Unconstrained_updateAsProver_def
        Unconstrained_set_def)

lemma pushIf_frame:
  assumes "pushIf this c v s = Inr (this', s')"
  shows "data this' = data this \<and> Constructor this' = Constructor this \<and>
         numbers s' = numbers s \<and> nextRef s' = nextRef s \<and>
         (\<forall>r. r \<noteq> data this \<longrightarrow> arrays s' r = arrays s r)"
  using assms
  by (auto simp add: pushIf_def Let_def bindE_eq_Inr Unconstrained_updateAsProver_def
        Unconstrained_set_def)

lemma popWitness_frame:
  assumes "popWitness this s = Inr (node, s')"
  shows "numbers s' = numbers s \<and> nextRef s' = nextRef s \<and>
         (\<forall>r. r \<noteq> data this \<longrightarrow> arrays s' r = arrays s r)"
  using assms
  by (cases "Unconstrained_get (data this) s")
     (auto simp add: popWitness_def bindE_eq_Inr Unconstrained_set_def)

lemma pop_frame:
  assumes "pop this s = Inr (v, this', s')"
  shows "data this' = data this \<and> Constructor this' = Constructor this \<and>
         numbers s' = numbers s \<and> nextRef s' = nextRef s \<and>
         (\<forall>r. r \<noteq> data this \<longrightarrow> arrays s' r = arrays s r)"
proof -
  from assms obtain node where "popWitness this s = Inr (node, s')"
    and "data this' = data this \<and> Constructor this' = Constructor this"
    by (auto simp add: pop_def bindE_eq_Inr)
  then show ?thesis
    using popWitness_frame by blast
qed

lemma popExn_frame:
  assumes "popExn this s = Inr (v, this', s')"
  shows "data this' = data this \<and> Constructor this' = Constructor this \<and>
         numbers s' = numbers s \<and> nextRef s' = nextRef s \<and>
         (\<forall>r. r \<noteq> data this \<longrightarrow> arrays s' r = arrays s r)"
proof -
  from assms obtain node where "popWitness this s = Inr (node, s')"
    and "data this' = data this \<and> Constructor this' = Constructor this"
    by (auto simp add: popExn_def bindE_eq_Inr)
  then show ?thesis
    using popWitness_frame by blast
qed

lemma popIf_frame:
  assumes "popIf this c s = Inr (v, this', s')"
  shows "data this' = data this \<and> Constructor this' = Constructor this \<and>
         numbers s' = numbers s \<and> nextRef s' = nextRef s \<and>
         (\<forall>r. r \<noteq> data this \<longrightarrow> arrays s' r = arrays s r)"
proof -
  from assms obtain this1 s1 compute where p: "pop this s = Inr (v, this1, s1)"
    and r: "this' = this1\<lparr>hash := (if c then hash this1 else hash this)\<rparr>"
           "s' = Unconstrained_updateAsProver (data this1) compute s1"
    by (auto simp add: popIf_def Let_def bindE_eq_Inr)
  from pop_frame [OF p] r show ?thesis
    by (simp add: Unconstrained_updateAsProver_def Unconstrained_set_def)
qed

lemma applyOp_frame:
  assumes "applyOp x this s = Inr (this', s')"
  shows "data this' = data this \<and> Constructor this' = Constructor this \<and>
         numbers s' = numbers s \<and> nextRef s' = nextRef s \<and>
         (\<forall>r. r \<noteq> data this \<longrightarrow> arrays s' r = arrays s r)"
proof (cases x)
  case (Push v)
  with assms show ?thesis using push_frame by simp
next
  case (PushIf c v)
  with assms show ?thesis using pushIf_frame by simp
next
  case Pop
  with assms obtain v where "pop this s = Inr (v, this', s')"
    by (auto simp add: bindE_eq_Inr)
  then show ?thesis by (rule pop_frame)
next
  case PopExn
  with assms obtain v where "popExn this s = Inr (v, this', s')"
    by (auto simp add: bindE_eq_Inr)
  then show ?thesis by (rule popExn_frame)
next
  case (PopIf c)
  with assms obtain v where "popIf this c s = Inr (v, this', s')"
    by (auto simp add: bindE_eq_Inr)
  then show ?thesis by (rule popIf_frame)
qed

lemma applyOps_frame:
  assumes "applyOps ops this s = Inr (this', s')"
  shows "data this' = data this \<and> Constructor this' = Constructor this \<and>
         numbers s' = numbers s \<and> nextRef s' = nextRef s \<and>
         (\<forall>r. r \<noteq> data this \<longrightarrow> arrays s' r = arrays s r)"
  using assms
proof (induction ops arbitrary: this s)
  case Nil
  then show ?case by simp
next
  case (Cons x ops)
  then obtain this1 s1 where a: "applyOp x this s = Inr (this1, s1)"
    and b: "applyOps ops this1 s1 = Inr (this', s')"
    by (auto simp add: bindE_eq_Inr)
  from applyOp_frame [OF a] Cons.IH [OF b] show ?case
    by simp
qed

lemma next_frame:
  assumes "MerkleListIterator_next this s = Inr (v, this', s')"
  shows "arrays s' = arrays s \<and> nextRef s' = nextRef s \<and> data this' = data this \<and>
         hash this' = hash this \<and> Constructor this' = Constructor this \<and>
         currentIndex this' = currentIndex this"
  using assms
  by (auto simp add: MerkleListIterator_next_def bindE_eq_Inr
        Unconstrained_updateAsProver_number_def Unconstrained_set_number_def)

subsection \<open>Repeated popping and iterating\<close>

lemma popMany_at_empty:
  "Constructor this = create H type nh' eh' \<Longrightarrow> hash this = default_emptyHash eh' \<Longrightarrow>
   popMany k this s =
     Inr (replicate k (empty type), this,
          Unconstrained_set (data this) (drop k (Unconstrained_get (data this) s)) s)"
proof (induction k arbitrary: s)
  case 0
  then show ?case by simp
next
  case (Suc k)
  show ?case
    using Suc.prems
    by (simp add: pop_at_empty Suc.IH drop_Suc)
qed

lemma popMany_chained:
  assumes "Constructor this = create H type nh' eh'"
    and "Unconstrained_get (data this) s = ns"
    and "hash this = foldHash (default_nextHash H type nh') (default_emptyHash eh') (map element ns)"
    and "previousHashes (default_nextHash H type nh') (default_emptyHash eh') ns"
  shows "\<exists>out. popMany (length ns) this s =
            Inr (out, this\<lparr>hash := default_emptyHash eh'\<rparr>, Unconstrained_set (data this) [] s) \<and>
          (noEmptySuffix (default_nextHash H type nh') (default_emptyHash eh') (map element ns)
             \<longrightarrow> out = map element ns)"
  using assms
proof (induction ns arbitrary: this s)
  case Nil
  then have "Unconstrained_set (data this) [] s = s"
    by (metis set_get_same)
  with Nil show ?case
    by (simp add: hash_update_same)
next
  case (Cons n ns)
  show ?case
  proof (cases "hash this = default_emptyHash eh'")
    case True
    with Cons.prems show ?thesis
      by (simp add: popMany_at_empty [where k = "Suc (length ns)"] hash_update_same
               del: popMany.simps)
  next
    case False
    let ?this' = "this\<lparr>hash := previousHash n\<rparr>"
    let ?s' = "Unconstrained_set (data this) ns s"
    have step: "pop this s = Inr (element n, ?this', ?s')"
      using Cons.prems False by (intro pop_head) auto
    have "\<exists>out. popMany (length ns) ?this' ?s' =
            Inr (out, ?this'\<lparr>hash := default_emptyHash eh'\<rparr>, Unconstrained_set (data ?this') [] ?s') \<and>
          (noEmptySuffix (default_nextHash H type nh') (default_emptyHash eh') (map element ns)
             \<longrightarrow> out = map element ns)"
      using Cons.prems by (intro Cons.IH) auto
    then obtain out where
      out: "popMany (length ns) ?this' ?s' =
              Inr (out, this\<lparr>hash := default_emptyHash eh'\<rparr>, Unconstrained_set (data this) [] s)"
      and vals: "noEmptySuffix (default_nextHash H type nh') (default_emptyHash eh') (map element ns)
             \<longrightarrow> out = map element ns"
      by auto
    show ?thesis
      using step out vals by simp
  qed
qed

text \<open>
  A list and an iterator whose classes have the same \<open>nextHash\<close> and the same empty
  hash, with the same commitment and with the list's data equal to the part of the
  iterator's data from its index on, return the same values, or fail alike.
\<close>

lemma next_pop_simulation:
  assumes "Constructor c = create H type nh' eh'"
    and "Constructor it = create H2 type nh2 eh2"
    and "default_nextHash H2 type nh2 = default_nextHash H type nh'"
    and "default_emptyHash eh2 = default_emptyHash eh'"
    and "currentHash it = hash c"
    and "drop (Unconstrained_get_number (currentIndex it) sB) (Unconstrained_get (data it) sB) =
           Unconstrained_get (data c) sA"
  shows "returned (nextMany k it sB) = returned (popMany k c sA)"
  using assms
proof (induction k arbitrary: c it sA sB)
  case 0
  show ?case by simp
next
  case (Suc k)
  let ?xs = "Unconstrained_get (data it) sB" and ?i = "Unconstrained_get_number (currentIndex it) sB"
  have "drop (min (Suc ?i) (length ?xs)) ?xs = tl (drop ?i ?xs)"
    by (cases "Suc ?i \<le> length ?xs") (simp_all add: drop_Suc tl_drop min_def)
  then have d: "drop (min (Suc ?i) (length ?xs)) ?xs = tl (Unconstrained_get (data c) sA)"
    using Suc.prems(6) by simp
  note nx = next_create [OF Suc.prems(2), of sB, unfolded Suc.prems(3,4,5,6)]
  note pp = pop_create [OF Suc.prems(1), of sA]
  show ?case
  proof (cases "pop c sA")
    case (Inl e)
    then have "MerkleListIterator_next it sB = Inl e"
      by (simp add: pp nx Let_def split: if_splits)
    with Inl show ?thesis by simp
  next
    case (Inr r)
    obtain v c' sA' where r: "r = (v, c', sA')"
      by (cases r) auto
    from Inr r Suc.prems obtain it' sB' where
      n: "MerkleListIterator_next it sB = Inr (v, it', sB')"
      and c': "Constructor c' = create H type nh' eh'" "Constructor it' = create H2 type nh2 eh2"
      and h: "currentHash it' = hash c'"
      and sB': "sB' = Unconstrained_set_number (currentIndex it) (min (Suc ?i) (length ?xs)) sB"
      and it': "currentIndex it' = currentIndex it" "data it' = data it"
      and sA': "sA' = Unconstrained_set (data c) (tl (Unconstrained_get (data c) sA)) sA"
      and dc: "data c' = data c"
      by (auto simp add: pp nx Let_def split: if_splits)
    have "returned (nextMany k it' sB') = returned (popMany k c' sA')"
      using c' Suc.prems(3,4) h d by (intro Suc.IH) (simp_all add: sB' it' sA' dc)
    then show ?thesis
      using Inr r n
      by (cases "nextMany k it' sB'"; cases "popMany k c' sA'") auto
  qed
qed

text \<open>
  For a list class with the default empty hash, iterating from \<open>startIterating()\<close>
  returns what popping a clone returns.
\<close>

lemma startIterating_next_clone_pop:
  assumes "Constructor L = create H type nh' eh'"
    and "default_emptyHash eh' = emptyHash"
  shows "case clone L s of
           (c, s1) \<Rightarrow>
             bindE (startIterating H L s1) (\<lambda>(it, s2). returned (nextMany k it s2)) =
               returned (popMany k c s1)"
proof -
  obtain c s1 where cl: "clone L s = (c, s1)"
    by fastforce
  then have c: "Constructor c = create H type nh' eh'" "hash c = hash L"
    and d: "Unconstrained_get (data c) s1 = Unconstrained_get (data L) s1"
    using assms(1)
    by (auto simp add: clone_def Unconstrained_from_def Unconstrained_get_def)
  let ?it = "\<lparr>hash = hash L, data = data L,
           Constructor = create H type (Some (default_nextHash H type nh')) None,
           currentHash = hash L, currentIndex = nextRef s1\<rparr>"
  let ?s2 = "s1\<lparr>numbers := (numbers s1)(nextRef s1 := 0), nextRef := Suc (nextRef s1)\<rparr>"
  have "returned (nextMany k ?it ?s2) = returned (popMany k c s1)"
    using c assms(2) d
    by (intro next_pop_simulation [where H = H and nh' = nh' and eh' = eh' and ?H2.0 = H
          and ?nh2.0 = "Some (default_nextHash H type nh')" and ?eh2.0 = None])
       (simp_all add: default_nextHash_def default_emptyHash_def Unconstrained_get_def
          Unconstrained_get_number_def)
  then show ?thesis
    using cl assms(1) by (simp add: startIterating_create)
qed

text \<open>The definitions that evaluate the methods on a concrete input.\<close>

lemmas eval_defs =
  pop_def popExn_def popIf_def push_def pushIf_def popWitness_def isEmpty_def nextHash_def
  innerProvable_def Class_innerProvable_def Class_emptyHash_def create_def
  default_nextHash_def default_emptyHash_def assertEquals_def
  Unconstrained_from_def Unconstrained_get_def Unconstrained_set_def
  Unconstrained_updateAsProver_def FieldType_def Field_def store0_def checksum_def
  chainInvariant_def

lemmas iterator_eval_defs =
  startIterating_def createFromList_def MerkleListIterator_startIterating_def
  MerkleListIterator_next_def isAtEnd_def jumpToEnd_def
  Unconstrained_from_number_def Unconstrained_get_number_def Unconstrained_set_number_def
  Unconstrained_updateAsProver_number_def

subsection \<open>C1: from, then pop\<close>

text \<open>
  C1, as amended. For every sequence \<open>vs\<close> and every class made by the factory,
  \<open>from(vs)\<close> followed by \<open>length vs\<close> calls of \<open>pop\<close> never fails and ends with
  the commitment equal to the empty hash; when no non-empty suffix of \<open>vs\<close> chains to
  the empty hash, the calls return the elements of \<open>vs\<close> in the order of the array,
  first element first.
\<close>

theorem from_pop_roundtrip:
  "case MerkleList_from H type nh' eh' vs s of (L, s1) \<Rightarrow>
     (case popMany (length vs) L s1 of
        Inl e \<Rightarrow> False
      | Inr (out, L', s') \<Rightarrow>
          hash L' = default_emptyHash eh' \<and>
          (noEmptySuffix (default_nextHash H type nh') (default_emptyHash eh') vs
             \<longrightarrow> out = vs))"
proof -
  let ?nh = "default_nextHash H type nh'" and ?eh = "default_emptyHash eh'"
  let ?L = "\<lparr>hash = foldHash ?nh ?eh vs, data = nextRef s, Constructor = create H type nh' eh'\<rparr>"
  let ?s1 = "s\<lparr>arrays := (arrays s)(nextRef s := nodesOf ?nh ?eh vs), nextRef := Suc (nextRef s)\<rparr>"
  have "\<exists>out. popMany (length (nodesOf ?nh ?eh vs)) ?L ?s1 =
            Inr (out, ?L\<lparr>hash := ?eh\<rparr>, Unconstrained_set (data ?L) [] ?s1) \<and>
          (noEmptySuffix ?nh ?eh (map element (nodesOf ?nh ?eh vs))
             \<longrightarrow> out = map element (nodesOf ?nh ?eh vs))"
    by (intro popMany_chained) (simp_all add: Unconstrained_get_def)
  moreover have "length (nodesOf ?nh ?eh vs) = length vs"
    by (metis element_nodesOf length_map)
  ultimately show ?thesis
    by (auto simp add: MerkleList_from_eq)
qed

text \<open>C1, witness: the array \<open>[3, 1, 4]\<close> under the checksum.\<close>

theorem from_pop_roundtrip_witness:
  "noEmptySuffix checksum 0 [3, 1, 4] \<and>
   (case MerkleList_from sumHasher FieldType (Some checksum) None [3, 1, 4] store0 of
      (L, s1) \<Rightarrow> returned (popMany 3 L s1) = Inr [3, 1, 4])"
proof -
  have h: "noEmptySuffix checksum 0 [3, 1, 4]"
    by (simp add: checksum_def)
  show ?thesis
    using h from_pop_roundtrip [where H = sumHasher and type = FieldType and nh' = "Some checksum"
        and eh' = None and vs = "[3, 1, 4]" and s = store0]
    by (auto simp add: default_nextHash_def default_emptyHash_def numeral_3_eq_3
             split: prod.splits sum.splits)
qed

text \<open>
  C1, counterexample to the claim as stated: \<open>from([1, 2])\<close> pops \<open>1\<close> and then
  \<open>2\<close>, not the reverse; and \<open>from([5, 5])\<close> under the checksum has the commitment
  \<open>0\<close>, the empty hash, so both pops return the placeholder \<open>0\<close>.
\<close>

theorem from_pop_reversed_counterexample:
  "(case MerkleList_from sumHasher FieldType (Some checksum) None [1, 2] store0 of
      (L, s1) \<Rightarrow> returned (popMany 2 L s1) = Inr [1, 2] \<and>
                 returned (popMany 2 L s1) \<noteq> Inr (rev [1, 2])) \<and>
   (case MerkleList_from sumHasher FieldType (Some checksum) None [5, 5] store0 of
      (L, s1) \<Rightarrow> returned (popMany 2 L s1) = Inr [0, 0])"
  by (simp add: MerkleList_from_eq numeral_2_eq_2 eval_defs)

subsection \<open>C2: the scenario \<open>from([3, 1, 4])\<close>\<close>

text \<open>
  C2. The element type is a single field value, \<open>nextHash(h, x) = H(prefix, [h, x])\<close>
  and the empty hash is \<open>0\<close>. Then \<open>from([3, 1, 4])\<close> chains from the right: the last
  element \<open>4\<close> has the previous hash \<open>0\<close>, \<open>h2 = H(prefix, [0, 4])\<close>,
  \<open>h1 = H(prefix, [h2, 1])\<close> and the commitment is \<open>h0 = H(prefix, [h1, 3])\<close>. The
  three calls of \<open>pop\<close> return \<open>3\<close>, \<open>1\<close> and \<open>4\<close> and leave the commitments
  \<open>h1\<close>, \<open>h2\<close> and \<open>0\<close>. The sponge \<open>H\<close> is a parameter; the three hashes it
  returns here are taken to differ from the empty hash.
\<close>

theorem from_3_1_4_scenario:
  assumes nh: "default_nextHash H FieldType nh' = merkleListHash H FieldType prefix"
    and h2: "H prefix [0, 4] \<noteq> 0"
    and h1: "H prefix [H prefix [0, 4], 1] \<noteq> 0"
    and h0: "H prefix [H prefix [H prefix [0, 4], 1], 3] \<noteq> 0"
  shows "emptyHash = 0 \<and>
        (let h2 = H prefix [0, 4]; h1 = H prefix [h2, 1]; h0 = H prefix [h1, 3] in
         case MerkleList_from H FieldType nh' None [3, 1, 4] s of
           (L, s0) \<Rightarrow>
             hash L = h0 \<and>
             Unconstrained_get (data L) s0 =
               [\<lparr>previousHash = h1, element = 3\<rparr>, \<lparr>previousHash = h2, element = 1\<rparr>,
                \<lparr>previousHash = emptyHash, element = 4\<rparr>] \<and>
             bindE (pop L s0) (\<lambda>(v1, L1, s1).
             bindE (pop L1 s1) (\<lambda>(v2, L2, s2).
             bindE (pop L2 s2) (\<lambda>(v3, L3, s3).
               Inr [(v1, hash L1), (v2, hash L2), (v3, hash L3)]))) =
             Inr [(3, h1), (1, h2), (4, emptyHash)])"
proof -
  have nhx: "default_nextHash H FieldType nh' h x = H prefix [h, x]" for h x
  proof -
    have "merkleListHash H FieldType prefix h x = H prefix [h, x]"
      by (simp add: merkleListHash_def FieldType_def)
    then show ?thesis by (simp add: nh)
  qed
  show ?thesis
    using h2 h1 h0
    by (simp add: MerkleList_from_eq nhx Let_def pop_def popWitness_def isEmpty_def
          nextHash_def innerProvable_def Class_innerProvable_def Class_emptyHash_def
          create_def default_emptyHash_def assertEquals_def Unconstrained_get_def
          Unconstrained_set_def)
qed

text \<open>C2, witness: the scenario with \<open>sumHasher\<close> for the sponge and the default prefix.\<close>

theorem from_3_1_4_scenario_witness:
  "default_nextHash sumHasher FieldType None = merkleListHash sumHasher FieldType [] \<and>
   sumHasher [] [0, 4] \<noteq> 0 \<and> sumHasher [] [sumHasher [] [0, 4], 1] \<noteq> 0 \<and>
   sumHasher [] [sumHasher [] [sumHasher [] [0, 4], 1], 3] \<noteq> 0 \<and>
   (case MerkleList_from sumHasher FieldType None None [3, 1, 4] store0 of
      (L, s0) \<Rightarrow>
        hash L = 11 \<and>
        bindE (pop L s0) (\<lambda>(v1, L1, s1).
        bindE (pop L1 s1) (\<lambda>(v2, L2, s2).
        bindE (pop L2 s2) (\<lambda>(v3, L3, s3).
          Inr [(v1, hash L1), (v2, hash L2), (v3, hash L3)]))) =
        Inr [(3, 7), (1, 5), (4, 0)])"
proof -
  have a: "default_nextHash sumHasher FieldType None = merkleListHash sumHasher FieldType []"
    by (simp add: default_nextHash_def)
  have b: "sumHasher [] [0, 4] \<noteq> 0" by (simp add: sumHasher_def)
  have c: "sumHasher [] [sumHasher [] [0, 4], 1] \<noteq> 0" by (simp add: sumHasher_def)
  have d: "sumHasher [] [sumHasher [] [sumHasher [] [0, 4], 1], 3] \<noteq> 0"
    by (simp add: sumHasher_def)
  have e: "sumHasher [] [0, 4] = 5" "sumHasher [] [5, 1] = 7" "sumHasher [] [7, 3] = 11"
    by (simp_all add: sumHasher_def)
  show ?thesis
    using a b c d from_3_1_4_scenario [OF a b c d, of store0]
    by (simp add: Let_def e split: prod.splits)
qed

subsection \<open>C3: the iterator and popping\<close>

text \<open>
  C3, the input on which the code leaves the claim: the empty list of a class made
  with the empty hash \<open>5\<close>. It satisfies the chain invariant. \<open>pop\<close> on a clone
  returns the placeholder \<open>0\<close>; \<open>next\<close> on the iterator from \<open>startIterating()\<close>
  fails its assertion, because the iterator class has the empty hash \<open>0\<close> (see C8) and
  does not take the commitment \<open>5\<close> for the end. For a class with the default empty
  hash the claim holds: lemma \<open>startIterating_next_clone_pop\<close>.
\<close>

theorem startIterating_custom_emptyHash_next:
  "case MerkleList_empty sumHasher FieldType None (Some 5) store0 of
     (L, s) \<Rightarrow>
       (case clone L s of
          (c, s1) \<Rightarrow>
            chainInvariant L s1 \<and>
            returned (pop c s1) = Inr 0 \<and>
            bindE (startIterating sumHasher L s1)
              (\<lambda>(it, s2). returned (MerkleListIterator_next it s2)) = Inl AssertionFailed)"
  by (simp add: MerkleList_empty_eq clone_def iterator_eval_defs eval_defs merkleListHash_def
        sumHasher_def)

subsection \<open>C4: the chain invariant\<close>

text \<open>
  C4, as amended. The chain invariant holds for the lists that \<open>empty()\<close> and
  \<open>from(array)\<close> make. On a list that satisfies it, \<open>push\<close>, \<open>pushIf\<close> with either
  flag and \<open>clone\<close> succeed and keep it; \<open>popExn\<close> keeps it whenever it succeeds;
  \<open>pop\<close> and \<open>popIf(true)\<close> succeed and keep it when the commitment differs from the
  empty hash or the data is empty; \<open>popIf(false)\<close> succeeds and keeps it when the
  commitment differs from the empty hash.
\<close>

theorem chainInvariant_preserved:
  assumes "Constructor L = create H type nh' eh'" and "chainInvariant L s"
  shows "case_prod chainInvariant (MerkleList_empty H type nh' eh' s0) \<and>
         case_prod chainInvariant (MerkleList_from H type nh' eh' vs s0) \<and>
         (case push L v s of Inl e \<Rightarrow> False | Inr (L', s') \<Rightarrow> chainInvariant L' s') \<and>
         (case pushIf L c v s of Inl e \<Rightarrow> False | Inr (L', s') \<Rightarrow> chainInvariant L' s') \<and>
         case_prod chainInvariant (clone L s) \<and>
         (case popExn L s of Inl e \<Rightarrow> True | Inr (x, L', s') \<Rightarrow> chainInvariant L' s') \<and>
         (hash L \<noteq> default_emptyHash eh' \<or> Unconstrained_get (data L) s = [] \<longrightarrow>
            (case pop L s of Inl e \<Rightarrow> False | Inr (x, L', s') \<Rightarrow> chainInvariant L' s') \<and>
            (case popIf L True s of Inl e \<Rightarrow> False | Inr (x, L', s') \<Rightarrow> chainInvariant L' s')) \<and>
         (hash L \<noteq> default_emptyHash eh' \<longrightarrow>
            (case popIf L False s of Inl e \<Rightarrow> False | Inr (x, L', s') \<Rightarrow> chainInvariant L' s'))"
proof -
  let ?nh = "default_nextHash H type nh'" and ?eh = "default_emptyHash eh'"
  let ?ns = "Unconstrained_get (data L) s"
  have inv: "hash L = foldHash ?nh ?eh (map element ?ns)" "previousHashes ?nh ?eh ?ns"
    using assms by (simp_all add: chainInvariant_create)
  have a: "case_prod chainInvariant (MerkleList_empty H type nh' eh' s0)"
    by (simp add: MerkleList_empty_eq chainInvariant_create Unconstrained_get_def)
  have b: "case_prod chainInvariant (MerkleList_from H type nh' eh' vs s0)"
    by (simp add: MerkleList_from_eq chainInvariant_create Unconstrained_get_def)
  have c: "case push L v s of Inl e \<Rightarrow> False | Inr (L', s') \<Rightarrow> chainInvariant L' s'"
    using assms(1) inv by (simp add: push_create chainInvariant_create)
  have d: "case pushIf L c v s of Inl e \<Rightarrow> False | Inr (L', s') \<Rightarrow> chainInvariant L' s'"
    using assms c by (simp add: pushIf_create)
  have e: "case_prod chainInvariant (clone L s)"
    using assms(1) inv
    by (simp add: clone_def Unconstrained_from_def chainInvariant_create Unconstrained_get_def)
  have f: "case popExn L s of Inl e \<Rightarrow> True | Inr (x, L', s') \<Rightarrow> chainInvariant L' s'"
    using assms(1) inv
    by (cases ?ns) (simp_all add: popExn_create chainInvariant_create Let_def)
  have g: "case pop L s of Inl e \<Rightarrow> False | Inr (x, L', s') \<Rightarrow> chainInvariant L' s'"
    if "hash L \<noteq> ?eh \<or> ?ns = []"
  proof (cases ?ns)
    case Nil
    with assms(1) inv show ?thesis
      by (simp add: pop_at_empty chainInvariant_create)
  next
    case (Cons n ns)
    with that have ne: "hash L \<noteq> ?eh" by simp
    have "pop L s = Inr (element n, L\<lparr>hash := previousHash n\<rparr>, Unconstrained_set (data L) ns s)"
      using assms(1) ne Cons inv by (intro pop_head) auto
    with assms(1) inv Cons show ?thesis
      by (simp add: chainInvariant_create)
  qed
  have h: "case popIf L False s of Inl e \<Rightarrow> False | Inr (x, L', s') \<Rightarrow> chainInvariant L' s'"
    if ne: "hash L \<noteq> ?eh"
  proof (cases ?ns)
    case Nil
    with inv ne show ?thesis by simp
  next
    case (Cons n ns)
    have "popIf L False s = Inr (element n, L, s)"
      using assms(1) ne Cons inv by (intro popIf_False_restores) auto
    with assms(2) show ?thesis by simp
  qed
  show ?thesis
    using a b c d e f g h assms(1) by (simp add: popIf_True)
qed

text \<open>C4, witness: \<open>from([3, 1, 4])\<close> under the checksum, with the commitment \<open>8\<close>.\<close>

theorem chainInvariant_preserved_witness:
  "case MerkleList_from sumHasher FieldType (Some checksum) None [3, 1, 4] store0 of
     (L, s) \<Rightarrow>
       Constructor L = create sumHasher FieldType (Some checksum) None \<and>
       chainInvariant L s \<and> hash L \<noteq> default_emptyHash None \<and>
       (case push L 9 s of Inl e \<Rightarrow> False | Inr (L', s') \<Rightarrow> chainInvariant L' s') \<and>
       (case popExn L s of Inl e \<Rightarrow> True | Inr (x, L', s') \<Rightarrow> chainInvariant L' s') \<and>
       (case pop L s of Inl e \<Rightarrow> False | Inr (x, L', s') \<Rightarrow> chainInvariant L' s') \<and>
       (case popIf L True s of Inl e \<Rightarrow> False | Inr (x, L', s') \<Rightarrow> chainInvariant L' s') \<and>
       (case popIf L False s of Inl e \<Rightarrow> False | Inr (x, L', s') \<Rightarrow> chainInvariant L' s')"
proof -
  obtain L s where f: "MerkleList_from sumHasher FieldType (Some checksum) None [3, 1, 4] store0 = (L, s)"
    by fastforce
  have c: "Constructor L = create sumHasher FieldType (Some checksum) None"
    using f by (auto simp add: MerkleList_from_eq)
  have i: "chainInvariant L s"
    using f by (auto simp add: MerkleList_from_eq chainInvariant_create Unconstrained_get_def)
  have h: "hash L \<noteq> default_emptyHash None"
    using f by (auto simp add: MerkleList_from_eq default_nextHash_def default_emptyHash_def checksum_def)
  show ?thesis
    using c i h chainInvariant_preserved [OF c i, where v = 9] f
    by simp
qed

text \<open>
  C4, counterexample to the claim as stated: \<open>from([5, 5])\<close> under the checksum
  satisfies the chain invariant with the commitment \<open>0\<close>, the empty hash; \<open>pop\<close>
  takes the list for empty, keeps the commitment \<open>0\<close> and drops the front node, and the
  node that remains chains to \<open>5\<close>.
\<close>

theorem chainInvariant_pop_counterexample:
  "case MerkleList_from sumHasher FieldType (Some checksum) None [5, 5] store0 of
     (L, s) \<Rightarrow>
       chainInvariant L s \<and>
       (case pop L s of Inl e \<Rightarrow> False | Inr (v, L', s') \<Rightarrow> \<not> chainInvariant L' s')"
  by (simp add: MerkleList_from_eq eval_defs)

subsection \<open>C5: pop and popExn on the empty list\<close>

text \<open>
  C5, as amended. On a list with the empty hash and no data, \<open>pop\<close> succeeds, returns
  the placeholder and leaves the list as it was; \<open>popExn\<close> there fails with the
  assertion exactly when \<open>nextHash(emptyHash, empty())\<close> differs from the empty hash,
  and returns the placeholder otherwise. On a list that satisfies the chain invariant
  and has data, \<open>popExn\<close> succeeds and returns the front element.
\<close>

theorem pop_popExn_on_empty:
  assumes "Constructor L = create H type nh' eh'"
  shows "(hash L = default_emptyHash eh' \<and> Unconstrained_get (data L) s = [] \<longrightarrow>
            pop L s = Inr (empty type, L, s) \<and>
            popExn L s =
              (if default_nextHash H type nh' (default_emptyHash eh') (empty type) =
                  default_emptyHash eh'
               then Inr (empty type, L, s) else Inl AssertionFailed)) \<and>
         (chainInvariant L s \<and> Unconstrained_get (data L) s \<noteq> [] \<longrightarrow>
            popExn L s =
              Inr (element (hd (Unconstrained_get (data L) s)),
                   L\<lparr>hash := previousHash (hd (Unconstrained_get (data L) s))\<rparr>,
                   Unconstrained_set (data L) (tl (Unconstrained_get (data L) s)) s))"
proof (intro conjI impI)
  assume e: "hash L = default_emptyHash eh' \<and> Unconstrained_get (data L) s = []"
  then have same: "Unconstrained_set (data L) [] s = s"
    by (metis set_get_same)
  show "pop L s = Inr (empty type, L, s)"
    using assms e same by (simp add: pop_at_empty)
  show "popExn L s =
          (if default_nextHash H type nh' (default_emptyHash eh') (empty type) =
              default_emptyHash eh'
           then Inr (empty type, L, s) else Inl AssertionFailed)"
    using assms e same by (simp add: popExn_create hash_update_same)
next
  assume c: "chainInvariant L s \<and> Unconstrained_get (data L) s \<noteq> []"
  then obtain n ns where ns: "Unconstrained_get (data L) s = n # ns"
    by (cases "Unconstrained_get (data L) s") auto
  with c assms show "popExn L s =
              Inr (element (hd (Unconstrained_get (data L) s)),
                   L\<lparr>hash := previousHash (hd (Unconstrained_get (data L) s))\<rparr>,
                   Unconstrained_set (data L) (tl (Unconstrained_get (data L) s)) s)"
    by (simp add: popExn_create chainInvariant_create)
qed

text \<open>
  C5, witness: the empty list of the default configuration over \<open>sumHasher\<close>, where
  \<open>popExn\<close> fails, and \<open>from([3, 1, 4])\<close>, where it returns \<open>3\<close>.
\<close>

theorem pop_popExn_on_empty_witness:
  "(case MerkleList_empty sumHasher FieldType None None store0 of
      (L, s) \<Rightarrow>
        Constructor L = create sumHasher FieldType None None \<and>
        hash L = default_emptyHash None \<and> Unconstrained_get (data L) s = [] \<and>
        pop L s = Inr (0, L, s) \<and> popExn L s = Inl AssertionFailed) \<and>
   (case MerkleList_from sumHasher FieldType None None [3, 1, 4] store0 of
      (L, s) \<Rightarrow>
        Constructor L = create sumHasher FieldType None None \<and>
        chainInvariant L s \<and> Unconstrained_get (data L) s \<noteq> [] \<and>
        returned (popExn L s) = Inr 3)"
proof -
  obtain L s where e: "MerkleList_empty sumHasher FieldType None None store0 = (L, s)"
    by fastforce
  obtain L' s' where f: "MerkleList_from sumHasher FieldType None None [3, 1, 4] store0 = (L', s')"
    by fastforce
  have c: "Constructor L = create sumHasher FieldType None None"
    and h: "hash L = default_emptyHash None \<and> Unconstrained_get (data L) s = []"
    using e by (auto simp add: MerkleList_empty_eq Unconstrained_get_def)
  have c': "Constructor L' = create sumHasher FieldType None None"
    and h': "chainInvariant L' s' \<and> Unconstrained_get (data L') s' \<noteq> []"
    using f by (auto simp add: MerkleList_from_eq chainInvariant_create Unconstrained_get_def)
  have n: "default_nextHash sumHasher FieldType None (default_emptyHash None) (empty FieldType)
             \<noteq> default_emptyHash None"
    by (simp add: default_nextHash_def default_emptyHash_def merkleListHash_def sumHasher_def
          FieldType_def Field_def)
  have z: "empty FieldType = 0"
    by (simp add: FieldType_def Field_def)
  have d: "element (hd (Unconstrained_get (data L') s')) = 3"
    using f by (auto simp add: MerkleList_from_eq Unconstrained_get_def)
  show ?thesis
    using c h c' h' n z d pop_popExn_on_empty [OF c, of s] pop_popExn_on_empty [OF c', of s'] e f
    by simp
qed

text \<open>
  C5, counterexample to the claim as stated: under the checksum
  \<open>nextHash(0, 0) = 0\<close>, so \<open>popExn\<close> on the empty list passes its assertion and
  returns the placeholder.
\<close>

theorem popExn_on_empty_counterexample:
  "case MerkleList_empty sumHasher FieldType (Some checksum) None store0 of
     (L, s) \<Rightarrow>
       hash L = emptyHash \<and> Unconstrained_get (data L) s = [] \<and> popExn L s = Inr (0, L, s)"
  by (simp add: MerkleList_empty_eq eval_defs)

subsection \<open>C6: the conditional methods\<close>

text \<open>
  C6, the input on which the code leaves the claim: \<open>popIf(false)\<close> on the empty list
  of the default configuration. The commitment stays the empty hash, but the record,
  empty before the call, holds the node \<open>{previousHash: 0, element: 0}\<close> after it. The
  lemmas \<open>pushIf_create\<close>, \<open>popIf_True\<close> and \<open>popIf_False_restores\<close> are the parts
  of the claim that hold.
\<close>

theorem popIf_False_on_empty:
  "case MerkleList_empty sumHasher FieldType None None store0 of
     (L, s) \<Rightarrow>
       hash L = emptyHash \<and> Unconstrained_get (data L) s = [] \<and>
       popIf L False s =
         Inr (0, L,
              Unconstrained_set (data L) [\<lparr>previousHash = emptyHash, element = 0\<rparr>] s) \<and>
       Unconstrained_get (data L)
         (Unconstrained_set (data L) [\<lparr>previousHash = emptyHash, element = 0\<rparr>] s) \<noteq> []"
  by (simp add: MerkleList_empty_eq popIf_False_at_empty default_emptyHash_def FieldType_def
        Field_def Unconstrained_get_def Unconstrained_set_def)

subsection \<open>C7: push, then pop\<close>

text \<open>
  C7, as amended. For every list \<open>L\<close> of a class made by the factory and every value
  \<open>v\<close> with \<open>nextHash(L.hash, v)\<close> different from the empty hash, \<open>L.push(v)\<close>
  followed by \<open>L.pop()\<close> returns \<open>v\<close> and restores the commitment and the record of
  \<open>L\<close>.
\<close>

theorem push_pop_restores:
  assumes "Constructor L = create H type nh' eh'"
    and "default_nextHash H type nh' (hash L) v \<noteq> default_emptyHash eh'"
  shows "bindE (push L v s) (\<lambda>(L', s'). pop L' s') = Inr (v, L, s)"
  using assms
  by (simp add: push_create pop_head[where n="\<lparr>previousHash = hash L, element = v\<rparr>" and ns="Unconstrained_get (data L) s"])

text \<open>C7, witness: pushing \<open>1\<close> on \<open>from([3, 1, 4])\<close> under the checksum.\<close>

theorem push_pop_restores_witness:
  "case MerkleList_from sumHasher FieldType (Some checksum) None [3, 1, 4] store0 of
     (L, s) \<Rightarrow>
       Constructor L = create sumHasher FieldType (Some checksum) None \<and>
       default_nextHash sumHasher FieldType (Some checksum) (hash L) 1 \<noteq> default_emptyHash None \<and>
       bindE (push L 1 s) (\<lambda>(L', s'). pop L' s') = Inr (1, L, s)"
proof -
  obtain L s where Ls: "MerkleList_from sumHasher FieldType (Some checksum) None [3, 1, 4] store0 = (L, s)"
    by fastforce
  have c: "Constructor L = create sumHasher FieldType (Some checksum) None"
    using Ls by (auto simp add: MerkleList_from_eq)
  have h: "default_nextHash sumHasher FieldType (Some checksum) (hash L) 1 \<noteq> default_emptyHash None"
    using Ls by (auto simp add: MerkleList_from_eq default_nextHash_def default_emptyHash_def checksum_def)
  show ?thesis
    using c h push_pop_restores [OF c h, of s] Ls by simp
qed

text \<open>
  C7, counterexample to the claim as stated: \<open>from([5])\<close> under the checksum satisfies
  the chain invariant and has the commitment \<open>5\<close>; after \<open>push(5)\<close> the commitment
  is \<open>0\<close>, the empty hash, so \<open>pop\<close> returns the placeholder \<open>0\<close>, not \<open>5\<close>, and
  leaves the commitment \<open>0\<close>, not \<open>5\<close>.
\<close>

theorem push_pop_collision_counterexample:
  "case MerkleList_from sumHasher FieldType (Some checksum) None [5] store0 of
     (L, s) \<Rightarrow>
       chainInvariant L s \<and> hash L = 5 \<and>
       bindE (push L 5 s) (\<lambda>(L', s'). pop L' s') = Inr (0, L\<lparr>hash := 0\<rparr>, s)"
  by (simp add: MerkleList_from_eq eval_defs)

subsection \<open>C8: the iterator class of a list class\<close>

text \<open>
  The empty list of any class is empty; the iterator started from it is at its end
  only when the empty hash of the list class is the default one.
\<close>

lemma isEmpty_isAtEnd_startIterating:
  "case MerkleList_empty H type nh' eh' s of
     (L, s') \<Rightarrow>
       isEmpty L = Inr True \<and>
       bindE (startIterating H L s') (\<lambda>(it, s''). isAtEnd it) =
         Inr (default_emptyHash eh' = emptyHash)"
  by (simp add: MerkleList_empty_eq startIterating_create default_emptyHash_def)

text \<open>
  C8, the input on which the code leaves the claim: a list class made with the empty
  hash \<open>1\<close>. Its empty list is empty, the iterator started from it is not at its end,
  because the class that \<open>createFromList\<close> makes has the empty hash \<open>0\<close>.
\<close>

theorem createFromList_custom_emptyHash:
  "case MerkleList_empty sumHasher FieldType None (Some 1) store0 of
     (L, s) \<Rightarrow>
       isEmpty L = Inr True \<and>
       bindE (startIterating sumHasher L s) (\<lambda>(it, s'). isAtEnd it) = Inr False \<and>
       map_sum id static_emptyHash (createFromList sumHasher (Constructor L)) = Inr (Some 0) \<and>
       static_emptyHash (Constructor L) = Some 1"
  by (simp add: MerkleList_empty_eq startIterating_create createFromList_create
       default_emptyHash_def)

subsection \<open>C9: clones and iterators\<close>

text \<open>
  C9, as amended. \<open>clone\<close> of a list whose cell is allocated makes a list with a new
  cell, the same commitment and a copy of the data: no sequence of \<open>push\<close>, \<open>pushIf\<close>,
  \<open>pop\<close>, \<open>popExn\<close> and \<open>popIf\<close> on the clone changes the data of the source, and
  none on the source changes the data of the clone. The iterator from
  \<open>startIterating()\<close> holds the cell of the list itself, with the commitment of the
  list; \<open>next\<close> writes to no array cell and keeps the iterator's \<open>hash\<close> and \<open>data\<close>.
\<close>

theorem clone_isolation:
  "(data L < nextRef s \<longrightarrow>
      (case clone L s of
         (c, s1) \<Rightarrow>
           data c \<noteq> data L \<and> hash c = hash L \<and>
           Unconstrained_get (data c) s1 = Unconstrained_get (data L) s \<and>
           Unconstrained_get (data L) s1 = Unconstrained_get (data L) s \<and>
           (\<forall>ops c' s2. applyOps ops c s1 = Inr (c', s2) \<longrightarrow>
              Unconstrained_get (data L) s2 = Unconstrained_get (data L) s1) \<and>
           (\<forall>ops L' s2. applyOps ops L s1 = Inr (L', s2) \<longrightarrow>
              Unconstrained_get (data c) s2 = Unconstrained_get (data c) s1))) \<and>
   (startIterating H L s = Inr (it, s1) \<longrightarrow>
      data it = data L \<and> hash it = hash L \<and> currentHash it = hash L \<and>
      arrays s1 = arrays s) \<and>
   (MerkleListIterator_next it0 s0 = Inr (v, it', s') \<longrightarrow>
      arrays s' = arrays s0 \<and> data it' = data it0 \<and> hash it' = hash it0)"
proof (intro conjI impI)
  assume wf: "data L < nextRef s"
  show "case clone L s of
         (c, s1) \<Rightarrow>
           data c \<noteq> data L \<and> hash c = hash L \<and>
           Unconstrained_get (data c) s1 = Unconstrained_get (data L) s \<and>
           Unconstrained_get (data L) s1 = Unconstrained_get (data L) s \<and>
           (\<forall>ops c' s2. applyOps ops c s1 = Inr (c', s2) \<longrightarrow>
              Unconstrained_get (data L) s2 = Unconstrained_get (data L) s1) \<and>
           (\<forall>ops L' s2. applyOps ops L s1 = Inr (L', s2) \<longrightarrow>
              Unconstrained_get (data c) s2 = Unconstrained_get (data c) s1)"
  proof -
    obtain c s1 where cl: "clone L s = (c, s1)"
      by fastforce
    then have c: "data c = nextRef s" "hash c = hash L"
      and s1: "arrays s1 = (arrays s)(nextRef s := arrays s (data L))"
      by (auto simp add: clone_def Unconstrained_from_def Unconstrained_get_def)
    have ne: "data c \<noteq> data L"
      using wf c by simp
    have "Unconstrained_get (data L) s2 = Unconstrained_get (data L) s1"
      if "applyOps ops c s1 = Inr (c', s2)" for ops c' s2
      using applyOps_frame [OF that] ne by (simp add: Unconstrained_get_def)
    moreover have "Unconstrained_get (data c) s2 = Unconstrained_get (data c) s1"
      if "applyOps ops L s1 = Inr (L', s2)" for ops L' s2
      using applyOps_frame [OF that] ne by (simp add: Unconstrained_get_def)
    ultimately show ?thesis
      using cl c s1 ne wf by (simp add: Unconstrained_get_def)
  qed
next
  assume "startIterating H L s = Inr (it, s1)"
  then have "data it = data L \<and> hash it = hash L \<and> currentHash it = hash L \<and> arrays s1 = arrays s"
    by (auto simp add: startIterating_def bindE_eq_Inr MerkleListIterator_startIterating_def
          Unconstrained_from_number_def)
  then show "data it = data L" "hash it = hash L" "currentHash it = hash L" "arrays s1 = arrays s"
    by simp_all
next
  assume "MerkleListIterator_next it0 s0 = Inr (v, it', s')"
  from next_frame [OF this]
  show "arrays s' = arrays s0" "data it' = data it0" "hash it' = hash it0"
    by simp_all
qed

text \<open>
  C9, witness: \<open>from([3, 1, 4])\<close> under the checksum; \<open>pop\<close> and \<open>push(9)\<close> on its
  clone, and one step of the iterator started from it.
\<close>

theorem clone_isolation_witness:
  "case MerkleList_from sumHasher FieldType (Some checksum) None [3, 1, 4] store0 of
     (L, s) \<Rightarrow>
       data L < nextRef s \<and>
       (case clone L s of
          (c, s1) \<Rightarrow>
            (case applyOps [Pop, Push 9] c s1 of
               Inl e \<Rightarrow> False
             | Inr (c', s2) \<Rightarrow>
                 map element (Unconstrained_get (data c') s2) = [9, 1, 4] \<and>
                 map element (Unconstrained_get (data L) s2) = [3, 1, 4])) \<and>
       (case startIterating sumHasher L s of
          Inl e \<Rightarrow> False
        | Inr (it, s1) \<Rightarrow>
            data it = data L \<and>
            (case MerkleListIterator_next it s1 of
               Inl e \<Rightarrow> False
             | Inr (v, it', s') \<Rightarrow> arrays s' = arrays s1))"
proof -
  obtain L s where f: "MerkleList_from sumHasher FieldType (Some checksum) None [3, 1, 4] store0 = (L, s)"
    by fastforce
  obtain c s1 where cl: "clone L s = (c, s1)"
    by fastforce
  have wf: "data L < nextRef s"
    and el: "map element (Unconstrained_get (data L) s) = [3, 1, 4]"
    using f by (auto simp add: MerkleList_from_eq store0_def Unconstrained_get_def)
  have "\<exists>c' s2. applyOps [Pop, Push 9] c s1 = Inr (c', s2) \<and>
          map element (Unconstrained_get (data c') s2) = [9, 1, 4]"
    using f cl by (auto simp add: MerkleList_from_eq clone_def eval_defs)
  then obtain c' s2 where ops: "applyOps [Pop, Push 9] c s1 = Inr (c', s2)"
    and el': "map element (Unconstrained_get (data c') s2) = [9, 1, 4]"
    by auto
  have "\<exists>it s3 v it' s4. startIterating sumHasher L s = Inr (it, s3) \<and>
          MerkleListIterator_next it s3 = Inr (v, it', s4)"
    using f by (auto simp add: MerkleList_from_eq iterator_eval_defs eval_defs)
  then obtain it s3 v it' s4 where st: "startIterating sumHasher L s = Inr (it, s3)"
    and nx: "MerkleListIterator_next it s3 = Inr (v, it', s4)"
    by auto
  from clone_isolation [where L = L and s = s, THEN conjunct1] wf cl
  have iso: "\<forall>ops c' s2. applyOps ops c s1 = Inr (c', s2) \<longrightarrow>
               Unconstrained_get (data L) s2 = Unconstrained_get (data L) s1"
    and same: "Unconstrained_get (data L) s1 = Unconstrained_get (data L) s"
    by simp_all
  from iso ops same have "Unconstrained_get (data L) s2 = Unconstrained_get (data L) s"
    by metis
  moreover have "data it = data L"
    using clone_isolation [where L = L and s = s and H = sumHasher and it = it and ?s1.0 = s3,
        THEN conjunct2, THEN conjunct1] st
    by simp
  moreover have "arrays s4 = arrays s3"
    using clone_isolation [where ?it0.0 = it and ?s0.0 = s3 and v = v and it' = it' and s' = s4,
        THEN conjunct2, THEN conjunct2] nx
    by simp
  ultimately show ?thesis
    using f cl wf el ops el' st nx by simp
qed

text \<open>
  C9, counterexample to the claim as stated: the iterator started from
  \<open>from([1, 2])\<close> returns \<open>1\<close> on its first \<open>next\<close>; after \<open>pop\<close> on the list, the
  data the iterator reads has changed and the same \<open>next\<close> fails its assertion.
\<close>

theorem startIterating_shares_data_counterexample:
  "case MerkleList_from sumHasher FieldType (Some checksum) None [1, 2] store0 of
     (L, s) \<Rightarrow>
       (case startIterating sumHasher L s of
          Inl e \<Rightarrow> False
        | Inr (it, s1) \<Rightarrow>
            returned (MerkleListIterator_next it s1) = Inr 1 \<and>
            (case pop L s1 of
               Inl e \<Rightarrow> False
             | Inr (v, L', s2) \<Rightarrow>
                 Unconstrained_get (data it) s2 \<noteq> Unconstrained_get (data it) s1 \<and>
                 MerkleListIterator_next it s2 = Inl AssertionFailed))"
  by (simp add: MerkleList_from_eq iterator_eval_defs eval_defs)

subsection \<open>C10: next at the end\<close>

text \<open>
  C10. An iterator of a class made by the factory whose \<open>currentHash\<close> is the empty
  hash is at its end, and \<open>n\<close> further calls of \<open>next\<close> all succeed, return the
  placeholder and leave the iterator as it is; the only change is to the index, which
  after the first call is the smaller of the index advanced and the length of the data.
\<close>

theorem next_past_the_end:
  assumes "Constructor this = create H type nh' eh'"
    and "currentHash this = default_emptyHash eh'"
  shows "isAtEnd this = Inr True \<and>
         nextMany n this s =
           Inr (replicate n (empty type), this,
                Unconstrained_set_number (currentIndex this)
                  (if n = 0 then Unconstrained_get_number (currentIndex this) s
                   else min (Unconstrained_get_number (currentIndex this) s + n)
                          (length (Unconstrained_get (data this) s))) s)"
proof -
  have "nextMany n this s =
           Inr (replicate n (empty type), this,
                Unconstrained_set_number (currentIndex this)
                  (if n = 0 then Unconstrained_get_number (currentIndex this) s
                   else min (Unconstrained_get_number (currentIndex this) s + n)
                          (length (Unconstrained_get (data this) s))) s)"
  proof (induction n arbitrary: s)
    case 0
    show ?case by simp
  next
    case (Suc n)
    let ?i = "Unconstrained_get_number (currentIndex this) s"
    let ?len = "length (Unconstrained_get (data this) s)"
    have "min (min (Suc ?i) ?len + n) ?len = min (Suc (?i + n)) ?len"
      by auto
    then show ?case
      using assms by (simp add: next_at_end Suc.IH)
  qed
  with assms show ?thesis by simp
qed

text \<open>
  C10, witness: the iterator over \<open>[3]\<close>, after the call of \<open>next\<close> that returns
  \<open>3\<close>; two more calls return the placeholder and leave the index at \<open>1\<close>, the
  length of the data.
\<close>

theorem next_past_the_end_witness:
  "case MerkleListIterator_from sumHasher FieldType None None [3] store0 of
     (it0, s0) \<Rightarrow>
       (case MerkleListIterator_next it0 s0 of
          Inl e \<Rightarrow> False
        | Inr (v, it, s) \<Rightarrow>
            v = 3 \<and> Constructor it = create sumHasher FieldType None None \<and>
            currentHash it = default_emptyHash None \<and> isAtEnd it = Inr True \<and>
            map_sum id
              (\<lambda>(vs, it', s').
                 (vs, currentHash it', Unconstrained_get_number (currentIndex it') s',
                  length (Unconstrained_get (data it') s')))
              (nextMany 2 it s) = Inr ([0, 0], 0, 1, 1))"
proof -
  obtain it0 s0 where a: "MerkleListIterator_from sumHasher FieldType None None [3] store0 = (it0, s0)"
    by fastforce
  have "\<exists>it s. MerkleListIterator_next it0 s0 = Inr (3, it, s) \<and>
          Constructor it = create sumHasher FieldType None None \<and>
          currentHash it = default_emptyHash None \<and>
          Unconstrained_get_number (currentIndex it) s = 1 \<and>
          length (Unconstrained_get (data it) s) = 1"
    using a
    by (auto simp add: MerkleListIterator_from_eq MerkleListIterator_next_def isAtEnd_def
          Unconstrained_get_number_def Unconstrained_updateAsProver_number_def
          Unconstrained_set_number_def nextHash_def innerProvable_def Class_innerProvable_def
          Class_emptyHash_def default_nextHash_def default_emptyHash_def assertEquals_def
          Unconstrained_get_def FieldType_def Field_def store0_def merkleListHash_def
          sumHasher_def)
  then obtain it s where b: "MerkleListIterator_next it0 s0 = Inr (3, it, s)"
    and c: "Constructor it = create sumHasher FieldType None None"
    and h: "currentHash it = default_emptyHash None"
    and i: "Unconstrained_get_number (currentIndex it) s = 1"
           "length (Unconstrained_get (data it) s) = 1"
    by blast
  have z: "empty FieldType = 0" "default_emptyHash None = 0"
    by (simp_all add: FieldType_def Field_def default_emptyHash_def)
  show ?thesis
    using a b c h i z next_past_the_end [OF c h, of 2 s]
    by (simp add: numeral_2_eq_2 del: nextMany.simps)
qed

end
